theory Spec2Isabelle
  imports Main
begin

section \<open>Python values used by \<open>anago/data/preprocess.py\<close>\<close>

text \<open>
  A Python 3 string is a sequence of Unicode code points, so a character is modelled by
  its code point and a string by the list of its code points. The full-width digits of
  the source's regular expression are the code points U+FF10 .. U+FF19 (65296 .. 65305),
  which do not fit the 8-bit characters of HOL's \<open>string\<close>.
\<close>

type_synonym pychar = nat
type_synonym pystr = "pychar list"

text \<open>ASCII literals are written \<open>str ''cat''\<close>.\<close>

definition str :: "string \<Rightarrow> pystr" where
  "str s = map of_char s"

text \<open>
  \<open>str.lower\<close> is a builtin of Python and not part of the module. Every function that
  calls it takes it as the parameter \<open>lower\<close>. For concrete evaluations the
  ASCII fragment of it is used.
\<close>

definition ascii_lower :: "pystr \<Rightarrow> pystr" where
  "ascii_lower s = map (\<lambda>c. if 65 \<le> c \<and> c \<le> 90 then c + 32 else c) s"

datatype error = KeyError | TypeError | AttributeError | ValueError | IndexError

text \<open>
  A \<open>dict\<close> keeps its keys in insertion order and holds every key once: an association
  list with distinct keys. \<open>d[k]\<close> raises \<open>KeyError\<close> on a missing key,
  \<open>d.get(k, default)\<close> does not; \<open>d[k] = v\<close> overwrites in place or appends.
\<close>

type_synonym ('k, 'v) dict = "('k \<times> 'v) list"

definition dict_keys :: "('k, 'v) dict \<Rightarrow> 'k list" where
  "dict_keys d = map fst d"

definition dict_values :: "('k, 'v) dict \<Rightarrow> 'v list" where
  "dict_values d = map snd d"

definition dict_len :: "('k, 'v) dict \<Rightarrow> int" where
  "dict_len d = int (length d)"

definition dict_contains :: "('k, 'v) dict \<Rightarrow> 'k \<Rightarrow> bool" where
  "dict_contains d k \<longleftrightarrow> map_of d k \<noteq> None"

definition dict_getitem :: "('k, 'v) dict \<Rightarrow> 'k \<Rightarrow> error + 'v" where
  "dict_getitem d k = (case map_of d k of None \<Rightarrow> Inl KeyError | Some v \<Rightarrow> Inr v)"

definition dict_get :: "('k, 'v) dict \<Rightarrow> 'k \<Rightarrow> 'v \<Rightarrow> 'v" where
  "dict_get d k dflt = (case map_of d k of None \<Rightarrow> dflt | Some v \<Rightarrow> v)"

primrec dict_setitem :: "('k, 'v) dict \<Rightarrow> 'k \<Rightarrow> 'v \<Rightarrow> ('k, 'v) dict" where
  "dict_setitem [] k v = [(k, v)]"
| "dict_setitem (p # ps) k v = (if fst p = k then (k, v) # ps else p # dict_setitem ps k v)"

text \<open>
  A list comprehension or an appending loop whose body may raise: the elements are
  processed from left to right and the first exception ends the traversal.
\<close>

fun map_err :: "('a \<Rightarrow> error + 'b) \<Rightarrow> 'a list \<Rightarrow> error + 'b list" where
  "map_err f [] = Inr []"
| "map_err f (x # xs) =
     (case f x of
        Inl e \<Rightarrow> Inl e
      | Inr y \<Rightarrow> (case map_err f xs of Inl e \<Rightarrow> Inl e | Inr ys \<Rightarrow> Inr (y # ys)))"

text \<open>List slices \<open>xs[:n]\<close> and \<open>xs[n:]\<close> (a negative bound counts from the end) and
  the repetition \<open>[x] * n\<close> (empty for \<open>n \<le> 0\<close>).\<close>

definition slice_to :: "int \<Rightarrow> 'a list \<Rightarrow> 'a list" where
  "slice_to n xs = (if 0 \<le> n then take (nat n) xs else take (length xs - nat (- n)) xs)"

definition slice_from :: "int \<Rightarrow> 'a list \<Rightarrow> 'a list" where
  "slice_from n xs = (if 0 \<le> n then drop (nat n) xs else drop (length xs - nat (- n)) xs)"

definition repeat :: "'a \<Rightarrow> int \<Rightarrow> 'a list" where
  "repeat x n = replicate (nat n) x"

section \<open>Token normalisation\<close>

text \<open>
  \<open>re.sub(pattern, repl, s)\<close> for a pattern that is one character class: every
  character of the class is replaced by the replacement string, every other character
  is kept.
\<close>

definition re_sub_class :: "pychar list \<Rightarrow> pystr \<Rightarrow> pystr \<Rightarrow> pystr" where
  "re_sub_class cls repl s = concat (map (\<lambda>c. if c \<in> set cls then repl else [c]) s)"

text \<open>The class \<open>[0-9...]\<close> of the source: the range \<open>0-9\<close> and the ten full-width
  digits, which the source lists one by one.\<close>

definition digit_class :: "pychar list" where
  "digit_class = [48 ..< 58] @
     [65296, 65297, 65298, 65299, 65300, 65301, 65302, 65303, 65304, 65305]"

definition digit_to_zero :: "pystr \<Rightarrow> pystr" where
  "digit_to_zero word = re_sub_class digit_class (str ''0'') word"

definition is_ascii_digit :: "pychar \<Rightarrow> bool" where
  "is_ascii_digit c \<longleftrightarrow> 48 \<le> c \<and> c \<le> 57"

definition is_fullwidth_digit :: "pychar \<Rightarrow> bool" where
  "is_fullwidth_digit c \<longleftrightarrow> 65296 \<le> c \<and> c \<le> 65305"

section \<open>The word and character processor\<close>

text \<open>
  The module constants \<open>UNK\<close>, \<open>PAD\<close> and \<open>NUM\<close> are imported from
  \<open>anago.data.reader\<close> and \<open>anago.data_utils\<close>; they are strings and are taken as
  parameters. A character of a word is itself a string of length one, so the keys of a
  character vocabulary are strings as well.

  After step 2 of the closure the variable \<open>word\<close> holds the word id when a word
  vocabulary was given and the normalised string otherwise; the closure returns it
  alone or paired with the character ids.
\<close>

datatype word_value = WordStr pystr | WordId int

datatype processed = Word word_value | CharsWord "int list" word_value

text \<open>
  Lines 43 to 47: \<open>char_ids += [vocab_chars.get(char, vocab_chars[UNK])]\<close> runs only for
  a character that is in the vocabulary. Python evaluates the arguments of a call before
  the call, so \<open>vocab_chars[UNK]\<close> is looked up (and may raise) every time.
\<close>

fun char_ids_loop :: "pystr \<Rightarrow> (pystr, int) dict \<Rightarrow> pystr \<Rightarrow> int list \<Rightarrow> error + int list" where
  "char_ids_loop UNK vocab_chars [] char_ids = Inr char_ids"
| "char_ids_loop UNK vocab_chars (char # rest) char_ids =
     (if dict_contains vocab_chars [char] then
        (case dict_getitem vocab_chars UNK of
           Inl e \<Rightarrow> Inl e
         | Inr unk \<Rightarrow>
             char_ids_loop UNK vocab_chars rest
               (char_ids @ [dict_get vocab_chars [char] unk]))
      else char_ids_loop UNK vocab_chars rest char_ids)"

text \<open>
  Line 51: \<open>vocab_words.get(word, vocab_words.get(UNK, vocab_words[PAD]))\<close>. The
  innermost argument \<open>vocab_words[PAD]\<close> is evaluated first, whatever the word is.
\<close>

definition lookup_word :: "pystr \<Rightarrow> pystr \<Rightarrow> (pystr, int) dict \<Rightarrow> pystr \<Rightarrow> error + int" where
  "lookup_word UNK PAD vocab_words word =
     (case dict_getitem vocab_words PAD of
        Inl e \<Rightarrow> Inl e
      | Inr pad \<Rightarrow> Inr (dict_get vocab_words word (dict_get vocab_words UNK pad)))"

text \<open>The closure \<open>f\<close> returned by \<open>get_processing_word\<close>, applied to a word.\<close>

definition get_processing_word ::
  "(pystr \<Rightarrow> pystr) \<Rightarrow> pystr \<Rightarrow> pystr \<Rightarrow>
   (pystr, int) dict option \<Rightarrow> (pystr, int) dict option \<Rightarrow> bool \<Rightarrow> bool \<Rightarrow>
   pystr \<Rightarrow> error + processed" where
  "get_processing_word lower UNK PAD vocab_words vocab_chars lowercase use_char word =
     (let word = (if lowercase then lower word else word);
          word = digit_to_zero word
      in case (case vocab_chars of
                 Some vc \<Rightarrow> if use_char then char_ids_loop UNK vc word [] else Inr []
               | None \<Rightarrow> Inr []) of
           Inl e \<Rightarrow> Inl e
         | Inr char_ids \<Rightarrow>
             (case (case vocab_words of
                      Some vw \<Rightarrow> map_sum id WordId (lookup_word UNK PAD vw word)
                    | None \<Rightarrow> Inr (WordStr word)) of
                Inl e \<Rightarrow> Inl e
              | Inr word \<Rightarrow>
                  Inr (if vocab_chars \<noteq> None \<and> use_char then CharsWord char_ids word
                       else Word word)))"

definition word_of :: "processed \<Rightarrow> word_value" where
  "word_of r = (case r of Word w \<Rightarrow> w | CharsWord cs w \<Rightarrow> w)"

definition chars_of :: "processed \<Rightarrow> int list option" where
  "chars_of r = (case r of Word w \<Rightarrow> None | CharsWord cs w \<Rightarrow> Some cs)"

section \<open>Padding\<close>

definition pad_word_chars :: "int list list \<Rightarrow> int \<Rightarrow> int list list" where
  "pad_word_chars words max_word_len =
     map (\<lambda>word.
            let padding = repeat 0 (max_word_len - int (length word));
                padded_word = word @ padding
            in slice_to max_word_len padded_word) words"


text \<open>
  \<open>pad_words1\<close> receives a reference to a list object and runs \<open>words += padding\<close> on
  it, which extends that object in place; only the slice it returns is a new list. To
  tell the two apart the list objects live in a store, addressed by their position;
  the function returns the reference of its result and the store it leaves behind.
\<close>

type_synonym ref = nat
type_synonym store = "int list list list"

definition new_list :: "int list list \<Rightarrow> store \<Rightarrow> ref \<times> store" where
  "new_list v s = (length s, s @ [v])"

definition pad_words1 :: "ref \<Rightarrow> int \<Rightarrow> int \<Rightarrow> store \<Rightarrow> ref \<times> store" where
  "pad_words1 words max_word_len max_sent_len s =
     (let padding = map (\<lambda>i. repeat 0 max_word_len)
                      [0 ..< nat (max_sent_len - int (length (s ! words)))];
          s' = s[words := s ! words @ padding]
      in new_list (slice_to max_sent_len (s' ! words)) s')"

text \<open>
  \<open>keras.preprocessing.sequence.pad_sequences(sequences, maxlen, dtype='int32',
  padding='pre', truncating='pre', value=0.)\<close> belongs to the Keras library. It is
  modelled as the library defines it, for sequences of integers that fit the dtype: a
  row of \<open>maxlen\<close> copies of \<open>value\<close> is allocated for every sequence (a negative
  \<open>maxlen\<close> is refused by the allocation); an empty sequence leaves its row as it is;
  any other sequence is cut to \<open>s[-maxlen:]\<close> (\<open>truncating='pre'\<close>) or \<open>s[:maxlen]\<close>
  (\<open>'post'\<close>) and copied to the head (\<open>padding='post'\<close>) or to the tail (\<open>'pre'\<close>) of
  the row. For \<open>maxlen = 0\<close> the slice \<open>s[-0:]\<close> is the whole sequence, which does not
  fit the empty row.
\<close>

datatype side = Pre | Post

definition pad_row :: "int \<Rightarrow> side \<Rightarrow> side \<Rightarrow> int \<Rightarrow> int list \<Rightarrow> error + int list" where
  "pad_row maxlen padding truncating val s =
     (if s = [] then Inr (repeat val maxlen)
      else
        let trunc = (case truncating of Pre \<Rightarrow> slice_from (- maxlen) s | Post \<Rightarrow> slice_to maxlen s)
        in if maxlen < int (length trunc) then Inl ValueError
           else (case padding of
                   Post \<Rightarrow> Inr (trunc @ repeat val (maxlen - int (length trunc)))
                 | Pre \<Rightarrow> Inr (repeat val (maxlen - int (length trunc)) @ trunc)))"

definition pad_sequences ::
  "int list list \<Rightarrow> int \<Rightarrow> side \<Rightarrow> side \<Rightarrow> int \<Rightarrow> error + int list list" where
  "pad_sequences sequences maxlen padding truncating val =
     (if maxlen < 0 then Inl ValueError
      else map_err (pad_row maxlen padding truncating val) sequences)"

record config =
  num_steps :: int
  max_word_len :: int

text \<open>\<open>pad_words\<close> passes \<open>padding='post'\<close> and leaves \<open>truncating\<close> and \<open>value\<close> at
  their defaults \<open>'pre'\<close> and \<open>0\<close>.\<close>

definition pad_words :: "int list list \<Rightarrow> config \<Rightarrow> error + int list list" where
  "pad_words xs config = pad_sequences xs (num_steps config) Post Pre 0"

text \<open>
  \<open>keras.utils.np_utils.to_categorical(y, num_classes)\<close>, also of the Keras library: a
  \<open>num_classes\<close> of 0 counts as not given and is replaced by \<open>max(y) + 1\<close>; the
  matrix of zeros gets a 1 in row \<open>k\<close> at column \<open>y[k]\<close>, where numpy lets a negative
  column count from the end and refuses a column outside the row. The entries are the
  floats 0.0 and 1.0, written here as the integers 0 and 1.
\<close>

definition onehot :: "int \<Rightarrow> int \<Rightarrow> int list" where
  "onehot num_classes i = map (\<lambda>k. if k = i then 1 else 0) [0 .. num_classes - 1]"

definition to_categorical :: "int list \<Rightarrow> int \<Rightarrow> error + int list list" where
  "to_categorical y num_classes =
     (if num_classes = 0 \<and> y = [] then Inl ValueError
      else
        let num_classes = (if num_classes = 0 then fold max y (hd y) + 1 else num_classes)
        in if num_classes < 0 then Inl ValueError
           else map_err (\<lambda>l. if l < - num_classes \<or> num_classes \<le> l then Inl IndexError
                              else Inr (onehot num_classes (if l < 0 then l + num_classes else l))) y)"

definition to_onehot :: "int list list \<Rightarrow> config \<Rightarrow> int \<Rightarrow> error + int list list list" where
  "to_onehot ys config ntags =
     (case pad_sequences ys (num_steps config) Post Pre 0 of
        Inl e \<Rightarrow> Inl e
      | Inr ys \<Rightarrow> map_err (\<lambda>y. to_categorical y ntags) ys)"

text \<open>
  \<open>pad_chars\<close>: every sentence gets a new list from \<open>pad_word_chars\<close>, which is handed
  to \<open>pad_words1\<close>; the lists collected in \<open>result\<close> are read into the array at the end.
\<close>

fun pad_chars_loop :: "int list list list \<Rightarrow> config \<Rightarrow> ref list \<Rightarrow> store \<Rightarrow> ref list \<times> store" where
  "pad_chars_loop [] config result s = (result, s)"
| "pad_chars_loop (sent # dataset) config result s =
     (let (words, s1) = new_list (pad_word_chars sent (max_word_len config)) s;
          (words', s2) = pad_words1 words (max_word_len config) (num_steps config) s1
      in pad_chars_loop dataset config (result @ [words']) s2)"

definition pad_chars :: "int list list list \<Rightarrow> config \<Rightarrow> store \<Rightarrow> int list list list \<times> store" where
  "pad_chars dataset config s =
     (let (result, s') = pad_chars_loop dataset config [] s
      in (map (\<lambda>r. s' ! r) result, s'))"

section \<open>The fit/transform preprocessor\<close>

text \<open>The vocabularies are \<open>None\<close> until \<open>fit\<close> has run.\<close>

record WordPreprocessor =
  lowercase :: bool
  num_norm :: bool
  char_feature :: bool
  vocab_word :: "(pystr, int) dict option"
  vocab_char :: "(pystr, int) dict option"
  vocab_tag :: "(pystr, int) dict option"
  vocab_init :: "(pystr, int) dict"

definition self_lower :: "(pystr \<Rightarrow> pystr) \<Rightarrow> WordPreprocessor \<Rightarrow> pystr \<Rightarrow> pystr" where
  "self_lower lower self word = (if lowercase self then lower word else word)"

definition self_normalize_num :: "WordPreprocessor \<Rightarrow> pystr \<Rightarrow> pystr" where
  "self_normalize_num self word =
     (if num_norm self then re_sub_class digit_class (str ''0'') word else word)"

text \<open>The step \<open>if k not in d: d[k] = len(d)\<close>, which \<open>fit\<close> runs for words,
  characters and tags.\<close>

definition dict_add_new :: "('k, int) dict \<Rightarrow> 'k \<Rightarrow> ('k, int) dict" where
  "dict_add_new d k = (if \<not> dict_contains d k then dict_setitem d k (dict_len d) else d)"

text \<open>The inner loop of \<open>fit\<close> over the characters of a word.\<close>

fun fit_chars :: "pystr \<Rightarrow> (pystr, int) dict \<Rightarrow> (pystr, int) dict" where
  "fit_chars [] chars = chars"
| "fit_chars (c # w) chars =
     fit_chars w (dict_add_new chars [c])"

text \<open>The loop of \<open>fit\<close> over the words, in the order in which the set is iterated.\<close>

fun fit_words ::
  "(pystr \<Rightarrow> pystr) \<Rightarrow> WordPreprocessor \<Rightarrow> pystr list \<Rightarrow>
   (pystr, int) dict \<times> (pystr, int) dict \<Rightarrow> (pystr, int) dict \<times> (pystr, int) dict" where
  "fit_words lower self [] (words, chars) = (words, chars)"
| "fit_words lower self (w # ws) (words, chars) =
     (let w = self_lower lower self w;
          w = self_normalize_num self w;
          words = dict_add_new words w
      in if \<not> char_feature self then fit_words lower self ws (words, chars)
         else fit_words lower self ws (words, fit_chars w chars))"

fun fit_tags :: "pystr list \<Rightarrow> (pystr, int) dict \<Rightarrow> (pystr, int) dict" where
  "fit_tags [] tags = tags"
| "fit_tags (t # ts) tags =
     fit_tags ts (dict_add_new tags t)"

text \<open>
  \<open>fit\<close>. The order in which Python iterates the set
  \<open>set(itertools.chain(*X)) | set(self.vocab_init)\<close> depends on the hashes of the strings;
  it is the parameter \<open>iter_set\<close>, which turns the elements that went into the set into
  the sequence the loop sees (\<open>remdups\<close> is one such order).
\<close>

definition fit ::
  "(pystr \<Rightarrow> pystr) \<Rightarrow> pystr \<Rightarrow> (pystr list \<Rightarrow> pystr list) \<Rightarrow>
   WordPreprocessor \<Rightarrow> pystr list list \<Rightarrow> pystr list list \<Rightarrow> WordPreprocessor" where
  "fit lower UNK iter_set self X y =
     (let words = [(UNK, 0)];
          chars = [(UNK, 0)];
          tags = [];
          (words, chars) =
             fit_words lower self (iter_set (concat X @ dict_keys (vocab_init self))) (words, chars);
          tags = fit_tags (concat y) tags
      in self\<lparr>vocab_word := Some words, vocab_char := Some chars, vocab_tag := Some tags\<rparr>)"

text \<open>\<open>_get_char_ids\<close>: \<open>self.vocab_char[UNK]\<close> is evaluated for every character, before
  \<open>get\<close> is called.\<close>

definition self_get_char_ids :: "pystr \<Rightarrow> WordPreprocessor \<Rightarrow> pystr \<Rightarrow> error + int list" where
  "self_get_char_ids UNK self word =
     map_err (\<lambda>c. case vocab_char self of
                     None \<Rightarrow> Inl AttributeError
                   | Some vc \<Rightarrow>
                       (case dict_getitem vc UNK of
                          Inl e \<Rightarrow> Inl e
                        | Inr unk \<Rightarrow> Inr (dict_get vc [c] unk))) word"

text \<open>A transformed sentence is the list of word ids, paired with the character ids
  of every word when \<open>char_feature\<close> is set.\<close>

datatype features = CharWordIds "int list list" "int list" | WordIds "int list"

text \<open>The body of the loop over the words of a sentence: the word id and, with
  \<open>char_feature\<close>, the character ids of one word.\<close>

definition transform_word ::
  "(pystr \<Rightarrow> pystr) \<Rightarrow> pystr \<Rightarrow> WordPreprocessor \<Rightarrow> pystr \<Rightarrow> error + (int \<times> int list)" where
  "transform_word lower UNK self w =
     (let w = self_lower lower self w;
          w = self_normalize_num self w
      in case vocab_word self of
           None \<Rightarrow> Inl TypeError
         | Some vw \<Rightarrow>
             (case (if dict_contains vw w then dict_getitem vw w else dict_getitem vw UNK) of
                Inl e \<Rightarrow> Inl e
              | Inr word_id \<Rightarrow>
                  if char_feature self then
                    (case self_get_char_ids UNK self w of
                       Inl e \<Rightarrow> Inl e
                     | Inr char_ids \<Rightarrow> Inr (word_id, char_ids))
                  else Inr (word_id, [])))"

definition transform_sent ::
  "(pystr \<Rightarrow> pystr) \<Rightarrow> pystr \<Rightarrow> WordPreprocessor \<Rightarrow> pystr list \<Rightarrow> error + features" where
  "transform_sent lower UNK self sent =
     (case map_err (transform_word lower UNK self) sent of
        Inl e \<Rightarrow> Inl e
      | Inr ps \<Rightarrow>
          Inr (if char_feature self then CharWordIds (map snd ps) (map fst ps)
               else WordIds (map fst ps)))"

text \<open>\<open>self.vocab_tag[t]\<close>: a direct lookup.\<close>

definition tag_id :: "WordPreprocessor \<Rightarrow> pystr \<Rightarrow> error + int" where
  "tag_id self t =
     (case vocab_tag self of None \<Rightarrow> Inl TypeError | Some tags \<Rightarrow> dict_getitem tags t)"

definition transform ::
  "(pystr \<Rightarrow> pystr) \<Rightarrow> pystr \<Rightarrow> WordPreprocessor \<Rightarrow> pystr list list \<Rightarrow> pystr list list \<Rightarrow>
   error + (features list \<times> int list list)" where
  "transform lower UNK self X y =
     (case map_err (transform_sent lower UNK self) X of
        Inl e \<Rightarrow> Inl e
      | Inr sents \<Rightarrow>
          (case map_err (map_err (tag_id self)) y of
             Inl e \<Rightarrow> Inl e
           | Inr y \<Rightarrow> Inr (sents, y)))"

text \<open>\<open>inverse_transform\<close>: the dict comprehension inserts the swapped items one after
  the other.\<close>

definition inverse_transform :: "WordPreprocessor \<Rightarrow> int list \<Rightarrow> error + pystr list" where
  "inverse_transform self y =
     (case vocab_tag self of
        None \<Rightarrow> Inl AttributeError
      | Some tags \<Rightarrow>
          let indice_tag = fold (\<lambda>(t, i) d. dict_setitem d i t) tags []
          in map_err (dict_getitem indice_tag) y)"


section \<open>Building the vocabularies from datasets\<close>

record dataset =
  sents :: "pystr list list"
  labels :: "pystr list list"

record splits =
  train :: dataset
  valid :: dataset
  test :: dataset

text \<open>\<open>get_vocabs\<close>: the words and tags are added to the sets as they are read; \<open>zip\<close>
  stops at the shorter of \<open>sents\<close> and \<open>labels\<close>.\<close>

definition get_vocabs :: "dataset list \<Rightarrow> pystr set \<times> pystr set" where
  "get_vocabs datasets =
     fold (\<lambda>dataset.
             fold (\<lambda>(words, tags) (vocab_words, vocab_tags).
                     (vocab_words \<union> set words, vocab_tags \<union> set tags))
                  (zip (sents dataset) (labels dataset)))
          datasets ({}, {})"

definition get_char_vocab :: "dataset \<Rightarrow> pystr set" where
  "get_char_vocab dataset =
     fold (\<lambda>words. fold (\<lambda>word vocab_char. vocab_char \<union> (\<lambda>c. [c]) ` set word) words)
          (sents dataset) {}"

text \<open>
  \<open>build_vocab\<close> up to the three sets it hands to \<open>write_vocab\<close>. The closure
  \<open>processing_word\<close> is built with \<open>lowercase=True\<close> and then never applied.
  \<open>vocab_glove\<close> stands for the result of \<open>load_glove_vocab(config.glove_path)\<close>;
  \<open>write_vocab\<close> and \<open>load_glove_vocab\<close> belong to \<open>anago.data_utils\<close> and the
  files they handle are left out.
\<close>

definition build_vocab ::
  "(pystr \<Rightarrow> pystr) \<Rightarrow> pystr \<Rightarrow> pystr \<Rightarrow> pystr \<Rightarrow> pystr set \<Rightarrow> splits \<Rightarrow>
   pystr set \<times> pystr set \<times> pystr set" where
  "build_vocab lower UNK PAD NUM vocab_glove dataset =
     (let processing_word = get_processing_word lower UNK PAD None None True False;
          (vocab_words, vocab_tags) = get_vocabs [train dataset, valid dataset, test dataset];
          vocab_chars = get_char_vocab (train dataset);
          vocab_words = vocab_words \<inter> vocab_glove;
          vocab_words = insert UNK vocab_words;
          vocab_words = insert NUM vocab_words
      in (vocab_words, vocab_chars, vocab_tags))"

text \<open>A vocabulary with unique keys whose indices count up from 0 in insertion
  order.\<close>

definition contiguous :: "('k, int) dict \<Rightarrow> bool" where
  "contiguous d \<longleftrightarrow> distinct (dict_keys d) \<and> dict_values d = map int [0 ..< length d]"

section \<open>Properties\<close>

subsection \<open>Traversals and dicts\<close>

lemma map_err_Inr:
  "(\<And>x. x \<in> set xs \<Longrightarrow> f x = Inr (g x)) \<Longrightarrow> map_err f xs = Inr (map g xs)"
  by (induction xs) simp_all

lemma map_err_Inl:
  "map_err f xs = Inl e \<Longrightarrow> \<exists>x \<in> set xs. f x = Inl e"
  by (induction xs) (auto split: sum.splits)

lemma map_err_fails:
  "x \<in> set xs \<Longrightarrow> f x = Inl e \<Longrightarrow> \<exists>e'. map_err f xs = Inl e'"
  by (induction xs) (auto split: sum.splits)

lemma dict_contains_keys: "dict_contains d k \<longleftrightarrow> k \<in> set (dict_keys d)"
  by (simp add: dict_contains_def dict_keys_def map_of_eq_None_iff)

lemma dict_setitem_fresh: "\<not> dict_contains d k \<Longrightarrow> dict_setitem d k v = d @ [(k, v)]"
  by (induction d) (auto simp: dict_contains_def split: if_splits)

subsection \<open>Digit folding\<close>

lemma str_zero: "str ''0'' = [48]"
  by (simp add: str_def)

lemma in_digit_class: "c \<in> set digit_class \<longleftrightarrow> is_ascii_digit c \<or> is_fullwidth_digit c"
proof -
  have "is_fullwidth_digit c \<longleftrightarrow>
      c \<in> {65296, 65297, 65298, 65299, 65300, 65301, 65302, 65303, 65304, 65305}"
    unfolding is_fullwidth_digit_def by (simp only: insert_iff empty_iff) arith
  moreover have "is_ascii_digit c \<longleftrightarrow> c \<in> set [48 ..< 58]"
    unfolding is_ascii_digit_def set_upt atLeastLessThan_iff by arith
  ultimately show ?thesis
    by (simp add: digit_class_def)
qed

lemma digit_to_zero_map:
  "digit_to_zero w = map (\<lambda>c. if is_ascii_digit c \<or> is_fullwidth_digit c then 48 else c) w"
  by (induction w) (simp_all add: digit_to_zero_def re_sub_class_def str_zero in_digit_class)

text \<open>
  C8. \<open>digit_to_zero\<close> keeps the length of the string; at every position an ASCII digit
  or a full-width digit becomes the ASCII character \<open>0\<close> (code point 48) and any other
  character stays as it is.
\<close>

theorem digit_to_zero_spec:
  "length (digit_to_zero w) = length w \<and>
   (\<forall>i < length w.
      digit_to_zero w ! i =
        (if is_ascii_digit (w ! i) \<or> is_fullwidth_digit (w ! i) then 48 else w ! i))"
  by (simp add: digit_to_zero_map)

theorem digit_to_zero_spec_witness:
  "length (digit_to_zero [97, 49, 65297, 57, 33]) = 5 \<and>
   digit_to_zero [97, 49, 65297, 57, 33] = [97, 48, 48, 48, 33]"
  using digit_to_zero_spec [of "[97, 49, 65297, 57, 33]"]
  by (simp add: digit_to_zero_map is_ascii_digit_def is_fullwidth_digit_def)

subsection \<open>The closure of \<open>get_processing_word\<close>\<close>

lemma char_ids_loop_filter:
  "dict_contains vc UNK \<Longrightarrow>
   char_ids_loop UNK vc w acc =
     Inr (acc @ map (\<lambda>c. the (map_of vc [c])) (filter (\<lambda>c. dict_contains vc [c]) w))"
  by (induction w arbitrary: acc)
     (auto simp: dict_contains_def dict_getitem_def dict_get_def split: option.splits)

lemma lookup_word_chain:
  "map_of vw PAD = Some p \<Longrightarrow>
   lookup_word UNK PAD vw n =
     Inr (case map_of vw n of
            Some i \<Rightarrow> i
          | None \<Rightarrow> (case map_of vw UNK of Some u \<Rightarrow> u | None \<Rightarrow> p))"
  by (simp add: lookup_word_def dict_getitem_def dict_get_def split: option.splits)

lemma lookup_word_in_values:
  "lookup_word UNK PAD vw n = Inr i \<Longrightarrow> i \<in> set (dict_values vw)"
  by (auto simp: lookup_word_def dict_getitem_def dict_get_def dict_values_def
           split: option.splits dest!: map_of_SomeD intro: rev_image_eqI)

text \<open>Without \<open>PAD\<close> among the keys the lookup raises for every word, also for a
  word of the vocabulary and also when \<open>UNK\<close> is a key.\<close>

lemma lookup_word_without_PAD:
  "\<not> dict_contains vw PAD \<Longrightarrow> lookup_word UNK PAD vw n = Inl KeyError"
  by (simp add: lookup_word_def dict_getitem_def dict_contains_def)

text \<open>
  With \<open>PAD\<close> among the keys of the word vocabulary (and, if character ids are
  requested, \<open>UNK\<close> among the keys of the character vocabulary) the closure returns
  for every word, and its word id follows the chain \<open>vocab_words[n]\<close>,
  \<open>vocab_words[UNK]\<close>, \<open>vocab_words[PAD]\<close> for the normalised form \<open>n\<close>.
\<close>

lemma get_processing_word_word_id:
  assumes pad: "map_of vw PAD = Some p"
    and chars: "vc = None \<or> \<not> use_char \<or> dict_contains (the vc) UNK"
  shows "\<exists>r i. get_processing_word lower UNK PAD (Some vw) vc lc use_char w = Inr r \<and>
           word_of r = WordId i \<and>
           i = (let n = digit_to_zero (if lc then lower w else w)
                in case map_of vw n of
                     Some k \<Rightarrow> k
                   | None \<Rightarrow> (case map_of vw UNK of Some u \<Rightarrow> u | None \<Rightarrow> p)) \<and>
           (set (dict_values vw) = {0 ..< dict_len vw} \<longrightarrow> 0 \<le> i \<and> i < dict_len vw)"
proof -
  define n where "n = digit_to_zero (if lc then lower w else w)"
  define i where "i = (case map_of vw n of
                     Some k \<Rightarrow> k
                   | None \<Rightarrow> (case map_of vw UNK of Some u \<Rightarrow> u | None \<Rightarrow> p))"
  have lw: "lookup_word UNK PAD vw n = Inr i"
    unfolding i_def by (rule lookup_word_chain [OF pad])
  have cs: "\<exists>ids. (case vc of
                 Some vc' \<Rightarrow> if use_char then char_ids_loop UNK vc' n [] else Inr []
               | None \<Rightarrow> Inr []) = Inr ids"
    using chars by (cases vc) (auto simp: char_ids_loop_filter)
  then obtain ids where ids: "(case vc of
                 Some vc' \<Rightarrow> if use_char then char_ids_loop UNK vc' n [] else Inr []
               | None \<Rightarrow> Inr []) = Inr ids" ..
  have "get_processing_word lower UNK PAD (Some vw) vc lc use_char w =
          Inr (if vc \<noteq> None \<and> use_char then CharsWord ids (WordId i) else Word (WordId i))"
    unfolding get_processing_word_def Let_def n_def [symmetric] using ids lw by simp
  moreover have "i \<in> set (dict_values vw)"
    using lw by (rule lookup_word_in_values)
  ultimately show ?thesis
    by (auto simp: word_of_def i_def n_def Let_def)
qed

text \<open>
  C1 at the vocabulary \<open>{$UNK$: 0, cat: 1}\<close>, which holds \<open>UNK\<close> and not \<open>PAD\<close>:
  the claim gives the word \<open>cat\<close> the id 1 and the out-of-vocabulary word \<open>dog\<close>
  the id 0 of \<open>UNK\<close>; the closure raises \<open>KeyError\<close> for both, because
  \<open>vocab_words[PAD]\<close> is evaluated before \<open>get\<close> is called.
\<close>

theorem get_processing_word_known_word_raises:
  "get_processing_word ascii_lower (str ''$UNK$'') (str ''<PAD>'')
     (Some [(str ''$UNK$'', 0), (str ''cat'', 1)]) None False False (str ''cat'') = Inl KeyError \<and>
   get_processing_word ascii_lower (str ''$UNK$'') (str ''<PAD>'')
     (Some [(str ''$UNK$'', 0), (str ''cat'', 1)]) None False False (str ''dog'') = Inl KeyError \<and>
   dict_getitem [(str ''$UNK$'', 0), (str ''cat'', 1 :: int)] (str ''cat'') = Inr 1 \<and>
   dict_getitem [(str ''$UNK$'', 0), (str ''cat'', 1 :: int)] (str ''$UNK$'') = Inr 0"
  by (simp add: get_processing_word_def lookup_word_def dict_getitem_def str_def)

subsection \<open>Padding of word ids and character ids\<close>

lemma pad_row_post_pre:
  "0 < maxlen \<Longrightarrow>
   pad_row maxlen Post Pre 0 s =
     Inr (drop (length s - nat maxlen) s @ replicate (nat maxlen - length s) 0)"
  by (auto simp: pad_row_def slice_from_def repeat_def Let_def nat_diff_distrib')

lemma pad_sequences_rows:
  "0 < n \<Longrightarrow>
   pad_sequences xs n Post Pre 0 =
     Inr (map (\<lambda>s. drop (length s - nat n) s @ replicate (nat n - length s) 0) xs)"
  by (simp add: pad_sequences_def pad_row_post_pre map_err_Inr)

text \<open>A sentence shorter than \<open>num_steps\<close> keeps its ids and is filled with zeros at
  the end.\<close>

lemma pad_words_shorter:
  "pad_words xs cfg = Inr r \<Longrightarrow> j < length xs \<Longrightarrow> int (length (xs ! j)) < num_steps cfg \<Longrightarrow>
   r ! j = xs ! j @ replicate (nat (num_steps cfg) - length (xs ! j)) 0"
  using pad_sequences_rows [of "num_steps cfg" xs] by (auto simp: pad_words_def)

text \<open>Of a sentence longer than \<open>num_steps\<close> the last \<open>num_steps\<close> ids are kept.\<close>

lemma pad_words_longer:
  "pad_words xs cfg = Inr r \<Longrightarrow> j < length xs \<Longrightarrow> 0 < num_steps cfg \<Longrightarrow>
   num_steps cfg < int (length (xs ! j)) \<Longrightarrow>
   r ! j = drop (length (xs ! j) - nat (num_steps cfg)) (xs ! j)"
  using pad_sequences_rows [of "num_steps cfg" xs] by (auto simp: pad_words_def)

text \<open>\<open>pad_word_chars\<close> keeps the first \<open>max_word_len\<close> character ids of a word and
  fills a shorter word with zeros at the end.\<close>

lemma pad_word_chars_rows:
  "0 \<le> n \<Longrightarrow>
   pad_word_chars ws n = map (\<lambda>w. take (nat n) w @ replicate (nat n - length w) 0) ws"
  by (auto simp: pad_word_chars_def slice_to_def repeat_def Let_def nat_diff_distrib')

text \<open>
  C2 at the sentence \<open>[1, 2, 3]\<close> with a maximum of 2: \<open>pad_words\<close> returns the last
  two ids \<open>[2, 3]\<close> where the claim asks for the first two, which is what
  \<open>pad_word_chars\<close> returns for the same ids.
\<close>

theorem pad_words_keeps_tail:
  "pad_words [[1, 2, 3]] \<lparr>num_steps = 2, max_word_len = 2\<rparr> = Inr [[2, 3]] \<and>
   pad_word_chars [[1, 2, 3]] 2 = [[1, 2]]"
  by (simp add: pad_words_def pad_sequences_def pad_row_def slice_from_def
        pad_word_chars_def slice_to_def repeat_def)

subsection \<open>The argument of \<open>pad_words1\<close>\<close>

lemma pad_words1_store:
  "r < length s \<Longrightarrow>
   pad_words1 r mwl msl s =
     (length s,
      s[r := s ! r @ replicate (nat (msl - int (length (s ! r)))) (repeat 0 mwl)] @
      [slice_to msl (s ! r @ replicate (nat (msl - int (length (s ! r)))) (repeat 0 mwl))])"
  by (simp add: pad_words1_def new_list_def Let_def map_replicate_const)

text \<open>The list object passed in is longer after the call exactly when it was shorter
  than \<open>max_sent_len\<close>; the result is a new object.\<close>

lemma pad_words1_argument:
  "r < length s \<Longrightarrow>
   snd (pad_words1 r mwl msl s) ! r =
     s ! r @ replicate (nat (msl - int (length (s ! r)))) (repeat 0 mwl)"
  by (simp add: pad_words1_store nth_append)

text \<open>Inside \<open>pad_chars\<close> the list handed to \<open>pad_words1\<close> is the new list
  from \<open>pad_word_chars\<close>: the objects that were in the store before stay as they
  were.\<close>

lemma pad_chars_loop_frame: "\<exists>ext. snd (pad_chars_loop dataset cfg result s) = s @ ext"
proof (induction dataset arbitrary: result s)
  case Nil
  then show ?case by simp
next
  case (Cons sent dataset)
  let ?v = "pad_word_chars sent (max_word_len cfg)"
  have "length s < length (s @ [?v])" by simp
  from pad_words1_store [OF this, of "max_word_len cfg" "num_steps cfg"]
  obtain r' s' where step: "pad_words1 (length s) (max_word_len cfg) (num_steps cfg) (s @ [?v])
      = (r', s')" and s': "\<exists>ext. s' = s @ ext"
    by simp
  from s' obtain ext where ext: "s' = s @ ext" ..
  from Cons.IH [of "result @ [r']" s'] obtain ext' where
    "snd (pad_chars_loop dataset cfg (result @ [r']) s') = s' @ ext'" ..
  then show ?case
    by (simp add: new_list_def step ext)
qed

lemma pad_chars_frame: "\<exists>ext. snd (pad_chars dataset cfg s) = s @ ext"
  using pad_chars_loop_frame [of dataset cfg "[]" s]
  by (auto simp: pad_chars_def split: prod.splits)

text \<open>
  C9 at the list \<open>[[1, 2]]\<close> (stored at reference 0) with \<open>max_word_len = 2\<close> and
  \<open>max_sent_len = 3\<close>: after the call the caller's list holds two more words, where
  the claim says it is unchanged.
\<close>

theorem pad_words1_extends_argument:
  "pad_words1 0 2 3 [[[1, 2]]] = (1, [[[1, 2], [0, 0], [0, 0]], [[1, 2], [0, 0], [0, 0]]])"
  by (simp add: pad_words1_store repeat_def slice_to_def numeral_eq_Suc)

subsection \<open>One-hot labels\<close>

lemma onehot_zero: "0 < n \<Longrightarrow> onehot n 0 = 1 # replicate (nat n - 1) 0"
proof -
  assume n: "0 < n"
  have "map (\<lambda>k. if k = 0 then 1 else 0 :: int) [1 .. n - 1] =
        replicate (length (map (\<lambda>k. if k = 0 then 1 else 0 :: int) [1 .. n - 1])) 0"
    by (rule replicate_length_same [symmetric]) auto
  with n show ?thesis
    by (simp add: onehot_def upto_rec1 [of 0] nat_diff_distrib')
qed

lemma to_categorical_valid:
  "0 < ntags \<Longrightarrow> \<forall>l \<in> set y. 0 \<le> l \<and> l < ntags \<Longrightarrow>
   to_categorical y ntags = Inr (map (onehot ntags) y)"
  unfolding to_categorical_def Let_def
  by (simp, intro map_err_Inr) fastforce

text \<open>
  C10. For label ids in \<open>[0, ntags)\<close>, \<open>to_onehot\<close> returns, and at every position \<open>i\<close>
  behind the end of a label sequence shorter than \<open>num_steps\<close> the vector is the one-hot
  vector with its 1 at index 0; its sum is 1, and it is the vector that every position
  of the sequence holding the genuine tag id 0 gets as well.
\<close>

theorem to_onehot_padding:
  assumes ntags: "0 < ntags"
    and valid: "\<forall>s \<in> set ys. \<forall>l \<in> set s. 0 \<le> l \<and> l < ntags"
    and j: "j < length ys"
    and short: "length (ys ! j) \<le> i" "int i < num_steps cfg"
  shows "\<exists>r. to_onehot ys cfg ntags = Inr r \<and>
           r ! j ! i = 1 # replicate (nat ntags - 1) 0 \<and>
           sum_list (r ! j ! i) = 1 \<and>
           (\<forall>k < length (ys ! j). ys ! j ! k = 0 \<longrightarrow> r ! j ! k = r ! j ! i)"
proof -
  let ?n = "num_steps cfg"
  let ?row = "\<lambda>s. drop (length s - nat ?n) s @ replicate (nat ?n - length s) (0::int)"
  from short have n: "0 < ?n" by simp
  have rows: "pad_sequences ys ?n Post Pre 0 = Inr (map ?row ys)"
    using n by (rule pad_sequences_rows)
  have "\<And>y. y \<in> set (map ?row ys) \<Longrightarrow> to_categorical y ntags = Inr (map (onehot ntags) y)"
  proof -
    fix y assume "y \<in> set (map ?row ys)"
    then obtain s where s: "s \<in> set ys" "y = ?row s" by auto
    have "\<forall>l \<in> set y. 0 \<le> l \<and> l < ntags"
      using s valid ntags by (auto dest: in_set_dropD)
    with ntags show "to_categorical y ntags = Inr (map (onehot ntags) y)"
      by (rule to_categorical_valid)
  qed
  then have "map_err (\<lambda>y. to_categorical y ntags) (map ?row ys) =
      Inr (map (map (onehot ntags)) (map ?row ys))"
    by (rule map_err_Inr)
  then have res: "to_onehot ys cfg ntags = Inr (map (map (onehot ntags)) (map ?row ys))"
    by (simp add: to_onehot_def rows)
  define rj where "rj = ?row (ys ! j)"
  have row_j: "rj = ys ! j @ replicate (nat ?n - length (ys ! j)) 0"
    using short by (simp add: rj_def)
  have at_j: "map (map (onehot ntags)) (map ?row ys) ! j = map (onehot ntags) rj"
    using j by (simp add: rj_def)
  have len: "i < length rj"
    using short by (simp add: row_j)
  have "rj ! i = 0"
    using short by (simp add: row_j nth_append)
  with len have at_i: "map (onehot ntags) rj ! i = onehot ntags 0"
    by simp
  have at_k: "map (onehot ntags) rj ! k = onehot ntags 0"
    if "k < length (ys ! j)" "ys ! j ! k = 0" for k
  proof -
    have "rj ! k = 0" using that by (simp add: row_j nth_append)
    moreover have "k < length rj" using that by (simp add: row_j)
    ultimately show ?thesis by simp
  qed
  show ?thesis
    using res at_j at_i at_k onehot_zero [OF ntags] by (simp add: sum_list_replicate)
qed

theorem to_onehot_padding_witness:
  "(0::int) < 3 \<and> (1::nat) < length [[1, 2, 0], [1 :: int]] \<and>
   length ([[1, 2, 0], [1 :: int]] ! 1) \<le> (1::nat) \<and>
   int 1 < num_steps \<lparr>num_steps = 3, max_word_len = 5\<rparr> \<and>
   (\<exists>r. to_onehot [[1, 2, 0], [1]] \<lparr>num_steps = 3, max_word_len = 5\<rparr> 3 = Inr r \<and>
        r ! 1 ! 1 = [1, 0, 0] \<and> r ! 0 ! 2 = r ! 1 ! 1)"
proof -
  have h1: "(0::int) < 3" by simp
  have h2: "\<forall>s \<in> set [[1, 2, 0], [1 :: int]]. \<forall>l \<in> set s. 0 \<le> l \<and> l < 3" by simp
  have h3: "(1::nat) < length [[1, 2, 0], [1 :: int]]" by simp
  have h4: "length ([[1, 2, 0], [1 :: int]] ! 1) \<le> (1::nat)" by simp
  have h5: "int 1 < num_steps \<lparr>num_steps = 3, max_word_len = 5\<rparr>" by simp
  have ev: "to_onehot [[1, 2, 0], [1]] \<lparr>num_steps = 3, max_word_len = 5\<rparr> 3 =
      Inr [[[0, 1, 0], [0, 0, 1], [1, 0, 0]], [[0, 1, 0], [1, 0, 0], [1, 0, 0]]]"
    by (simp add: to_onehot_def pad_sequences_def pad_row_def slice_from_def repeat_def
          to_categorical_def onehot_def upto_rec1 numeral_eq_Suc)
  show ?thesis
    using to_onehot_padding [OF h1 h2 h3 h4 h5] h1 h2 h3 h4 h5 by (simp add: ev)
qed

subsection \<open>The vocabularies built by \<open>fit\<close>\<close>

lemma dict_add_new_append:
  "dict_add_new d k = (if dict_contains d k then d else d @ [(k, dict_len d)])"
  by (simp add: dict_add_new_def dict_setitem_fresh)

lemma contiguous_add_new: "contiguous d \<Longrightarrow> contiguous (dict_add_new d k)"
  by (auto simp: dict_add_new_append contiguous_def dict_contains_keys dict_keys_def
        dict_values_def dict_len_def)

lemma map_of_add_new: "map_of d k0 = Some v \<Longrightarrow> map_of (dict_add_new d k) k0 = Some v"
  by (simp add: dict_add_new_append map_of_append)

lemma contains_add_new: "dict_contains (dict_add_new d k) k' \<longleftrightarrow> k' = k \<or> dict_contains d k'"
  by (auto simp: dict_add_new_append dict_contains_keys dict_keys_def)

lemma contiguous_fit_chars: "contiguous chars \<Longrightarrow> contiguous (fit_chars w chars)"
  by (induction w arbitrary: chars) (simp_all add: contiguous_add_new)

lemma map_of_fit_chars: "map_of chars k0 = Some v \<Longrightarrow> map_of (fit_chars w chars) k0 = Some v"
  by (induction w arbitrary: chars) (simp_all add: map_of_add_new)

lemma contiguous_fit_tags: "contiguous tags \<Longrightarrow> contiguous (fit_tags ts tags)"
  by (induction ts arbitrary: tags) (simp_all add: contiguous_add_new)

lemma contains_fit_tags:
  "dict_contains (fit_tags ts tags) t \<longleftrightarrow> t \<in> set ts \<or> dict_contains tags t"
  by (induction ts arbitrary: tags) (auto simp: contains_add_new)

lemma fit_words_inv:
  "contiguous words \<Longrightarrow> contiguous chars \<Longrightarrow>
   map_of words k0 = Some v \<Longrightarrow> map_of chars k1 = Some v' \<Longrightarrow>
   fit_words lower self ws (words, chars) = (words', chars') \<Longrightarrow>
   contiguous words' \<and> contiguous chars' \<and> map_of words' k0 = Some v \<and> map_of chars' k1 = Some v'"
proof (induction ws arbitrary: words chars)
  case Nil
  then show ?case by simp
next
  case (Cons w ws)
  let ?w = "self_normalize_num self (self_lower lower self w)"
  show ?case
  proof (cases "char_feature self")
    case True
    with Cons.prems(5) have "fit_words lower self ws (dict_add_new words ?w, fit_chars ?w chars)
        = (words', chars')"
      by (simp add: Let_def)
    then show ?thesis
      using Cons.prems(1-4)
      by (intro Cons.IH [of "dict_add_new words ?w" "fit_chars ?w chars"])
         (simp_all add: contiguous_add_new contiguous_fit_chars map_of_add_new map_of_fit_chars)
  next
    case False
    with Cons.prems(5) have "fit_words lower self ws (dict_add_new words ?w, chars)
        = (words', chars')"
      by (simp add: Let_def)
    then show ?thesis
      using Cons.prems(1-4)
      by (intro Cons.IH [of "dict_add_new words ?w" chars])
         (simp_all add: contiguous_add_new map_of_add_new)
  qed
qed

lemma contiguous_singleton: "contiguous [(k, 0)]"
  by (simp add: contiguous_def dict_keys_def dict_values_def)

lemma contiguous_empty: "contiguous []"
  by (simp add: contiguous_def dict_keys_def dict_values_def)

text \<open>What \<open>fit\<close> leaves in the three vocabularies.\<close>

lemma fit_vocabs:
  "\<exists>words chars tags.
     fit lower UNK iter_set self X y =
       self\<lparr>vocab_word := Some words, vocab_char := Some chars, vocab_tag := Some tags\<rparr> \<and>
     contiguous words \<and> contiguous chars \<and> contiguous tags \<and>
     map_of words UNK = Some 0 \<and> map_of chars UNK = Some 0 \<and>
     tags = fit_tags (concat y) []"
proof -
  obtain words chars where wc:
    "fit_words lower self (iter_set (concat X @ dict_keys (vocab_init self)))
       ([(UNK, 0)], [(UNK, 0)]) = (words, chars)"
    by (cases "fit_words lower self (iter_set (concat X @ dict_keys (vocab_init self)))
       ([(UNK, 0)], [(UNK, 0)])") 
  have "contiguous words \<and> contiguous chars \<and> map_of words UNK = Some 0 \<and> map_of chars UNK = Some 0"
    by (rule fit_words_inv [OF _ _ _ _ wc]) (simp_all add: contiguous_singleton)
  moreover have "fit lower UNK iter_set self X y =
      self\<lparr>vocab_word := Some words, vocab_char := Some chars,
           vocab_tag := Some (fit_tags (concat y) [])\<rparr>"
    by (simp add: fit_def wc)
  moreover have "contiguous (fit_tags (concat y) [])"
    by (simp add: contiguous_fit_tags contiguous_empty)
  ultimately show ?thesis
    by blast
qed

lemma contiguous_values:
  "contiguous d \<Longrightarrow> distinct (dict_values d) \<and> set (dict_values d) = {0 ..< dict_len d}"
proof -
  assume "contiguous d"
  then have v: "dict_values d = map int [0 ..< length d]" by (simp add: contiguous_def)
  have "distinct (map int [0 ..< length d])" by (simp add: distinct_map)
  moreover have "set (map int [0 ..< length d]) = {0 ..< int (length d)}"
    by (auto simp: image_iff) (metis nat_less_iff nat_0_le atLeastLessThan_iff zero_le)
  ultimately show ?thesis by (simp add: v dict_len_def)
qed

text \<open>
  C6. After \<open>fit\<close>, on any input and for any iteration order of the word set, the
  word and the character vocabulary map \<open>UNK\<close> to 0, and each of the three vocabularies
  has unique keys, is injective, and has exactly the values \<open>0, ..., size - 1\<close>.
\<close>

theorem fit_vocabularies_contiguous:
  "\<exists>words chars tags.
     vocab_word (fit lower UNK iter_set self X y) = Some words \<and>
     vocab_char (fit lower UNK iter_set self X y) = Some chars \<and>
     vocab_tag (fit lower UNK iter_set self X y) = Some tags \<and>
     dict_getitem words UNK = Inr 0 \<and> dict_getitem chars UNK = Inr 0 \<and>
     (\<forall>d \<in> {words, chars, tags}.
        distinct (dict_keys d) \<and> distinct (dict_values d) \<and>
        inj_on (map_of d) (set (dict_keys d)) \<and>
        set (dict_values d) = {0 ..< dict_len d})"
proof -
  have inj: "inj_on (map_of d) (set (dict_keys d))"
    if "distinct (dict_keys d)" "distinct (dict_values d)" for d :: "(pystr, int) dict"
  proof (rule inj_onI)
    fix a b assume a: "a \<in> set (dict_keys d)" and b: "b \<in> set (dict_keys d)"
      and eq: "map_of d a = map_of d b"
    from a obtain v where va: "(a, v) \<in> set d" by (auto simp: dict_keys_def)
    from b obtain v' where vb: "(b, v') \<in> set d" by (auto simp: dict_keys_def)
    from that(1) va have "map_of d a = Some v" by (simp add: dict_keys_def)
    moreover from that(1) vb have "map_of d b = Some v'" by (simp add: dict_keys_def)
    ultimately have "v = v'" using eq by simp
    with va vb that(2) show "a = b"
      unfolding dict_values_def by (metis distinct_map inj_on_def snd_conv prod.inject)
  qed
  obtain words chars tags where f:
    "fit lower UNK iter_set self X y =
       self\<lparr>vocab_word := Some words, vocab_char := Some chars, vocab_tag := Some tags\<rparr>"
    "contiguous words" "contiguous chars" "contiguous tags"
    "map_of words UNK = Some 0" "map_of chars UNK = Some 0"
    using fit_vocabs [of lower UNK iter_set self X y] by blast
  have "distinct (dict_keys d) \<and> distinct (dict_values d) \<and>
        inj_on (map_of d) (set (dict_keys d)) \<and>
        set (dict_values d) = {0 ..< dict_len d}" if "contiguous d" for d :: "(pystr, int) dict"
    using that contiguous_values [OF that] inj [of d] by (simp add: contiguous_def)
  with f show ?thesis
    by (simp add: dict_getitem_def)
qed

theorem fit_vocabularies_contiguous_witness:
  "vocab_word (fit ascii_lower (str ''<UNK>'') remdups
       \<lparr>lowercase = True, num_norm = True, char_feature = True, vocab_word = None,
        vocab_char = None, vocab_tag = None, vocab_init = []\<rparr>
       [[str ''Ab'', str ''b1'']] [[str ''O'', str ''B'']]) =
     Some [(str ''<UNK>'', 0), (str ''ab'', 1), (str ''b0'', 2)] \<and>
   (\<exists>chars tags.
      vocab_char (fit ascii_lower (str ''<UNK>'') remdups
        \<lparr>lowercase = True, num_norm = True, char_feature = True, vocab_word = None,
         vocab_char = None, vocab_tag = None, vocab_init = []\<rparr>
        [[str ''Ab'', str ''b1'']] [[str ''O'', str ''B'']]) = Some chars \<and>
      vocab_tag (fit ascii_lower (str ''<UNK>'') remdups
        \<lparr>lowercase = True, num_norm = True, char_feature = True, vocab_word = None,
         vocab_char = None, vocab_tag = None, vocab_init = []\<rparr>
        [[str ''Ab'', str ''b1'']] [[str ''O'', str ''B'']]) = Some tags \<and>
      set (dict_values chars) = {0 ..< dict_len chars} \<and>
      set (dict_values tags) = {0 ..< dict_len tags})"
proof -
  have "vocab_word (fit ascii_lower (str ''<UNK>'') remdups
       \<lparr>lowercase = True, num_norm = True, char_feature = True, vocab_word = None,
        vocab_char = None, vocab_tag = None, vocab_init = []\<rparr>
       [[str ''Ab'', str ''b1'']] [[str ''O'', str ''B'']]) =
     Some [(str ''<UNK>'', 0), (str ''ab'', 1), (str ''b0'', 2)]"
    by (simp add: fit_def str_def ascii_lower_def self_lower_def self_normalize_num_def
          re_sub_class_def digit_class_def dict_add_new_def dict_contains_def dict_len_def
          dict_keys_def Let_def)
  then show ?thesis
    using fit_vocabularies_contiguous [of ascii_lower "str ''<UNK>''" remdups
        "\<lparr>lowercase = True, num_norm = True, char_feature = True, vocab_word = None,
         vocab_char = None, vocab_tag = None, vocab_init = []\<rparr>"
        "[[str ''Ab'', str ''b1'']]" "[[str ''O'', str ''B'']]"]
    by auto
qed

subsection \<open>\<open>transform\<close> after \<open>fit\<close>\<close>

lemma get_char_ids_fitted:
  "vocab_char st = Some chars \<Longrightarrow> map_of chars UNK = Some u \<Longrightarrow>
   self_get_char_ids UNK st w = Inr (map (\<lambda>c. dict_get chars [c] u) w)"
  unfolding self_get_char_ids_def
  by (rule map_err_Inr) (simp add: dict_getitem_def)

lemma transform_word_fitted:
  assumes "vocab_word st = Some words" "map_of words UNK = Some u"
    and "vocab_char st = Some chars" "map_of chars UNK = Some u'"
  shows "transform_word lower UNK st w =
     Inr (dict_get words (self_normalize_num st (self_lower lower st w)) u,
          if char_feature st
          then map (\<lambda>c. dict_get chars [c] u') (self_normalize_num st (self_lower lower st w))
          else [])"
  using assms
  by (simp add: transform_word_def Let_def get_char_ids_fitted dict_getitem_def dict_get_def
        dict_contains_def split: option.splits)

lemma transform_sent_fitted:
  assumes "vocab_word st = Some words" "map_of words UNK = Some u"
    and "vocab_char st = Some chars" "map_of chars UNK = Some u'"
  shows "transform_sent lower UNK st sent =
      Inr (if char_feature st
           then CharWordIds
                  (map (\<lambda>w. map (\<lambda>c. dict_get chars [c] u')
                              (self_normalize_num st (self_lower lower st w))) sent)
                  (map (\<lambda>w. dict_get words (self_normalize_num st (self_lower lower st w)) u) sent)
           else WordIds
                  (map (\<lambda>w. dict_get words (self_normalize_num st (self_lower lower st w)) u) sent))"
proof -
  have "map_err (transform_word lower UNK st) sent =
      Inr (map (\<lambda>w. (dict_get words (self_normalize_num st (self_lower lower st w)) u,
              if char_feature st
              then map (\<lambda>c. dict_get chars [c] u') (self_normalize_num st (self_lower lower st w))
              else [])) sent)"
    by (rule map_err_Inr) (rule transform_word_fitted [OF assms])
  then show ?thesis
    by (simp add: transform_sent_def comp_def)
qed

lemma transform_sents_fitted:
  assumes "vocab_word st = Some words" "map_of words UNK = Some u"
    and "vocab_char st = Some chars" "map_of chars UNK = Some u'"
  shows "map_err (transform_sent lower UNK st) X =
      Inr (map (\<lambda>sent.
             if char_feature st
             then CharWordIds
                    (map (\<lambda>w. map (\<lambda>c. dict_get chars [c] u')
                                (self_normalize_num st (self_lower lower st w))) sent)
                    (map (\<lambda>w. dict_get words (self_normalize_num st (self_lower lower st w)) u) sent)
             else WordIds
                    (map (\<lambda>w. dict_get words (self_normalize_num st (self_lower lower st w)) u) sent))
           X)"
  by (rule map_err_Inr) (rule transform_sent_fitted [OF assms])

lemma tag_ids_known:
  assumes "vocab_tag st = Some tags" "\<forall>t \<in> set (concat y). dict_contains tags t"
  shows "map_err (map_err (tag_id st)) y = Inr (map (map (\<lambda>t. the (map_of tags t))) y)"
proof (rule map_err_Inr)
  fix s assume s: "s \<in> set y"
  have "tag_id st t = Inr (the (map_of tags t))" if "t \<in> set s" for t
  proof -
    from that s assms(2) have "dict_contains tags t" by auto
    then show ?thesis
      by (auto simp: tag_id_def assms(1) dict_getitem_def dict_contains_def)
  qed
  then show "map_err (tag_id st) s = Inr (map (\<lambda>t. the (map_of tags t)) s)"
    by (rule map_err_Inr)
qed

lemma tag_ids_unknown:
  assumes "vocab_tag st = Some tags" "t \<in> set (concat y)" "\<not> dict_contains tags t"
  shows "map_err (map_err (tag_id st)) y = Inl KeyError"
proof -
  from assms(2) obtain s where s: "s \<in> set y" "t \<in> set s" by auto
  have "tag_id st t = Inl KeyError"
    using assms by (simp add: tag_id_def dict_getitem_def dict_contains_def)
  with s(2) obtain e where "map_err (tag_id st) s = Inl e"
    using map_err_fails [of t s "tag_id st" KeyError] by auto
  with s(1) obtain e' where e': "map_err (map_err (tag_id st)) y = Inl e'"
    using map_err_fails [of s y "map_err (tag_id st)" e] by auto
  then obtain s' where "map_err (tag_id st) s' = Inl e'"
    using map_err_Inl [of "map_err (tag_id st)" y e'] by auto
  then obtain t' where "tag_id st t' = Inl e'"
    using map_err_Inl [of "tag_id st" s' e'] by auto
  then have "e' = KeyError"
    by (simp add: tag_id_def assms(1) dict_getitem_def split: option.splits)
  with e' show ?thesis by simp
qed

text \<open>
  C4. After \<open>fit\<close>, the loop of \<open>transform\<close> over the sentences returns for every
  input. The tag vocabulary holds exactly the labels given to \<open>fit\<close>; \<open>transform\<close>
  raises \<open>KeyError\<close> if and only if some label of \<open>y\<close> is not among them, and
  returns otherwise. What it returns then is, for every sentence, the word ids
  \<open>vocab_word.get(n, 0)\<close> of the normalised forms \<open>n\<close> of its words (0 is the id of
  \<open>UNK\<close>, so every word whose form is not in the word vocabulary gets the id of
  \<open>UNK\<close>), with the character ids when \<open>char_feature\<close> is set, and for every label its
  id in the tag vocabulary.
\<close>

theorem transform_raises_iff_unknown_tag:
  assumes st: "st = fit lower UNK iter_set self X0 y0"
  shows "map_err (transform_sent lower UNK st) X =
           Inr (map (\<lambda>sent.
                if char_feature self
                then CharWordIds
                       (map (\<lambda>w. map (\<lambda>c. dict_get (the (vocab_char st)) [c] 0)
                                   (self_normalize_num self (self_lower lower self w))) sent)
                       (map (\<lambda>w. dict_get (the (vocab_word st))
                                   (self_normalize_num self (self_lower lower self w)) 0) sent)
                else WordIds
                       (map (\<lambda>w. dict_get (the (vocab_word st))
                                   (self_normalize_num self (self_lower lower self w)) 0) sent)) X) \<and>
         (\<forall>w. \<exists>cs. transform_word lower UNK st w =
                 Inr (dict_get (the (vocab_word st))
                        (self_normalize_num self (self_lower lower self w)) 0, cs)) \<and>
         dict_getitem (the (vocab_word st)) UNK = Inr 0 \<and>
         (\<forall>t. dict_contains (the (vocab_tag st)) t \<longleftrightarrow> t \<in> set (concat y0)) \<and>
         (transform lower UNK st X y = Inl KeyError \<longleftrightarrow>
            (\<exists>t \<in> set (concat y). t \<notin> set (concat y0))) \<and>
         ((\<exists>r. transform lower UNK st X y = Inr r) \<longleftrightarrow>
            (\<forall>t \<in> set (concat y). t \<in> set (concat y0))) \<and>
         ((\<forall>t \<in> set (concat y). t \<in> set (concat y0)) \<longrightarrow>
            transform lower UNK st X y =
              Inr (map (\<lambda>sent.
                if char_feature self
                then CharWordIds
                       (map (\<lambda>w. map (\<lambda>c. dict_get (the (vocab_char st)) [c] 0)
                                   (self_normalize_num self (self_lower lower self w))) sent)
                       (map (\<lambda>w. dict_get (the (vocab_word st))
                                   (self_normalize_num self (self_lower lower self w)) 0) sent)
                else WordIds
                       (map (\<lambda>w. dict_get (the (vocab_word st))
                                   (self_normalize_num self (self_lower lower self w)) 0) sent)) X,
                   map (map (\<lambda>t. the (map_of (the (vocab_tag st)) t))) y))"
proof -
  obtain words chars tags where f:
    "st = self\<lparr>vocab_word := Some words, vocab_char := Some chars, vocab_tag := Some tags\<rparr>"
    "map_of words UNK = Some 0" "map_of chars UNK = Some 0" "tags = fit_tags (concat y0) []"
    using fit_vocabs [of lower UNK iter_set self X0 y0] st by blast
  have vs: "vocab_word st = Some words" "vocab_char st = Some chars" "vocab_tag st = Some tags"
    by (simp_all add: f(1))
  have norm: "self_normalize_num st (self_lower lower st w) =
      self_normalize_num self (self_lower lower self w)" for w
    by (simp add: f(1) self_normalize_num_def self_lower_def)
  have cf: "char_feature st = char_feature self"
    by (simp add: f(1))
  have known: "dict_contains tags t \<longleftrightarrow> t \<in> set (concat y0)" for t
    using contains_fit_tags [of "concat y0" "[]" t] by (simp add: f(4) dict_contains_def)
  define sents where "sents = map (\<lambda>sent.
                if char_feature self
                then CharWordIds
                       (map (\<lambda>w. map (\<lambda>c. dict_get (the (vocab_char st)) [c] 0)
                                   (self_normalize_num self (self_lower lower self w))) sent)
                       (map (\<lambda>w. dict_get (the (vocab_word st))
                                   (self_normalize_num self (self_lower lower self w)) 0) sent)
                else WordIds
                       (map (\<lambda>w. dict_get (the (vocab_word st))
                                   (self_normalize_num self (self_lower lower self w)) 0) sent)) X"
  have sents: "map_err (transform_sent lower UNK st) X = Inr sents"
    unfolding sents_def
    using transform_sents_fitted [OF vs(1) f(2) vs(2) f(3), where lower = lower and X = X]
    by (simp only: norm cf vs option.sel)
  have tr: "transform lower UNK st X y =
      (case map_err (map_err (tag_id st)) y of Inl e \<Rightarrow> Inl e | Inr ids \<Rightarrow> Inr (sents, ids))"
    by (simp add: transform_def sents)
  have word: "\<exists>cs. transform_word lower UNK st w =
                 Inr (dict_get (the (vocab_word st))
                        (self_normalize_num self (self_lower lower self w)) 0, cs)" for w
    using transform_word_fitted [OF vs(1) f(2) vs(2) f(3), where lower = lower and w = w]
    by (simp add: norm vs)
  have unk: "dict_getitem (the (vocab_word st)) UNK = Inr 0"
    by (simp add: vs f(2) dict_getitem_def)
  have tagv: "\<forall>t. dict_contains (the (vocab_tag st)) t \<longleftrightarrow> t \<in> set (concat y0)"
    using known by (simp only: vs option.sel) blast
  have rest: "(transform lower UNK st X y = Inl KeyError \<longleftrightarrow>
            (\<exists>t \<in> set (concat y). t \<notin> set (concat y0))) \<and>
         ((\<exists>r. transform lower UNK st X y = Inr r) \<longleftrightarrow>
            (\<forall>t \<in> set (concat y). t \<in> set (concat y0))) \<and>
         ((\<forall>t \<in> set (concat y). t \<in> set (concat y0)) \<longrightarrow>
            transform lower UNK st X y =
              Inr (sents, map (map (\<lambda>t. the (map_of (the (vocab_tag st)) t))) y))"
  proof (cases "\<forall>t \<in> set (concat y). t \<in> set (concat y0)")
    case True
    then have "\<forall>t \<in> set (concat y). dict_contains tags t"
      by (simp add: known)
    from tag_ids_known [OF vs(3) this] True show ?thesis
      by (simp add: tr vs)
  next
    case False
    then obtain t where "t \<in> set (concat y)" "\<not> dict_contains tags t"
      by (auto simp: known)
    from tag_ids_unknown [OF vs(3) this] False show ?thesis
      by (simp add: tr)
  qed
  from sents word unk tagv rest show ?thesis
    unfolding sents_def by (intro conjI) blast+
qed

theorem transform_raises_iff_unknown_tag_witness:
  "transform ascii_lower (str ''<UNK>'')
     (fit ascii_lower (str ''<UNK>'') remdups
        \<lparr>lowercase = True, num_norm = True, char_feature = True, vocab_word = None,
         vocab_char = None, vocab_tag = None, vocab_init = []\<rparr>
        [[str ''ab'']] [[str ''O'']])
     [[str ''zz'']] [[str ''B'']] = Inl KeyError \<and>
   transform ascii_lower (str ''<UNK>'')
     (fit ascii_lower (str ''<UNK>'') remdups
        \<lparr>lowercase = True, num_norm = True, char_feature = True, vocab_word = None,
         vocab_char = None, vocab_tag = None, vocab_init = []\<rparr>
        [[str ''ab'']] [[str ''O'']])
     [[str ''AB'', str ''zz'']] [[str ''O'', str ''O'']] =
     Inr ([CharWordIds [[1, 2], [0, 0]] [1, 0]], [[0, 0]])"
proof -
  have ne: "str ''B'' \<noteq> str ''O''" by (simp add: str_def)
  have raises: "transform ascii_lower (str ''<UNK>'')
     (fit ascii_lower (str ''<UNK>'') remdups
        \<lparr>lowercase = True, num_norm = True, char_feature = True, vocab_word = None,
         vocab_char = None, vocab_tag = None, vocab_init = []\<rparr>
        [[str ''ab'']] [[str ''O'']])
     [[str ''zz'']] [[str ''B'']] = Inl KeyError"
    using transform_raises_iff_unknown_tag [OF refl, of ascii_lower "str ''<UNK>''" remdups
        "\<lparr>lowercase = True, num_norm = True, char_feature = True, vocab_word = None,
         vocab_char = None, vocab_tag = None, vocab_init = []\<rparr>"
        "[[str ''ab'']]" "[[str ''O'']]" "[[str ''zz'']]" "[[str ''B'']]"] ne
    by simp
  have returns: "transform ascii_lower (str ''<UNK>'')
     (fit ascii_lower (str ''<UNK>'') remdups
        \<lparr>lowercase = True, num_norm = True, char_feature = True, vocab_word = None,
         vocab_char = None, vocab_tag = None, vocab_init = []\<rparr>
        [[str ''ab'']] [[str ''O'']])
     [[str ''AB'', str ''zz'']] [[str ''O'', str ''O'']] =
     Inr ([CharWordIds [[1, 2], [0, 0]] [1, 0]], [[0, 0]])"
    by (simp add: transform_def transform_sent_def transform_word_def tag_id_def fit_def
          self_get_char_ids_def dict_get_def
          str_def ascii_lower_def self_lower_def self_normalize_num_def re_sub_class_def
          digit_class_def dict_add_new_def dict_contains_def dict_len_def dict_keys_def
          dict_getitem_def Let_def)
  from raises returns show ?thesis
    by (simp only: simp_thms)
qed

subsection \<open>Tags through \<open>transform\<close> and \<open>inverse_transform\<close>\<close>

lemma map_err_map:
  "(\<And>x. x \<in> set xs \<Longrightarrow> f (h x) = Inr x) \<Longrightarrow> map_err f (map h xs) = Inr xs"
  by (induction xs) simp_all

lemma fold_swap_items:
  "distinct (map fst acc @ map snd ts) \<Longrightarrow>
   fold (\<lambda>(t, i) d. dict_setitem d i t) ts acc = acc @ map (\<lambda>(t, i). (i, t)) ts"
proof (induction ts arbitrary: acc)
  case Nil
  then show ?case by simp
next
  case (Cons p ts)
  obtain t i where p: "p = (t, i)" by (cases p)
  from Cons.prems have "\<not> dict_contains acc i"
    by (auto simp: p dict_contains_keys dict_keys_def)
  then have step: "dict_setitem acc i t = acc @ [(i, t)]"
    by (rule dict_setitem_fresh)
  from Cons.prems have "distinct (map fst (acc @ [(i, t)]) @ map snd ts)"
    by (auto simp: p)
  from Cons.IH [OF this] show ?case
    by (simp add: p step)
qed

lemma indice_tag_lookup:
  assumes "contiguous tags" "map_of tags t = Some i"
  shows "dict_getitem (fold (\<lambda>(t, i) d. dict_setitem d i t) tags []) i = Inr t"
proof -
  have d: "distinct (map snd tags)"
    using contiguous_values [OF assms(1)] by (simp add: dict_values_def)
  then have "fold (\<lambda>(t, i) d. dict_setitem d i t) tags [] = map (\<lambda>(t, i). (i, t)) tags"
    using fold_swap_items [of "[]" tags] by simp
  moreover have "map fst (map (\<lambda>(t, i). (i, t)) tags) = map snd tags"
    by (induction tags) auto
  then have "distinct (map fst (map (\<lambda>(t, i). (i, t)) tags))"
    using d by (simp only:)
  moreover have "(i, t) \<in> set (map (\<lambda>(t, i). (i, t)) tags)"
    using map_of_SomeD [OF assms(2)] by force
  ultimately have "map_of (fold (\<lambda>(t, i) d. dict_setitem d i t) tags []) i = Some t"
    by (simp only: map_of_is_SomeI)
  then show ?thesis
    by (simp add: dict_getitem_def)
qed

text \<open>
  C7. After \<open>fit(X, y)\<close>, \<open>transform(X, y)\<close> returns, and \<open>inverse_transform\<close>
  applied to each of the tag-id sequences it returns gives back the label sequence of
  \<open>y\<close> at that position.
\<close>

theorem fit_transform_inverse_transform:
  assumes st: "st = fit lower UNK iter_set self X y"
  shows "\<exists>sents ids. transform lower UNK st X y = Inr (sents, ids) \<and>
           map (inverse_transform st) ids = map Inr y"
proof -
  obtain words chars tags where f:
    "st = self\<lparr>vocab_word := Some words, vocab_char := Some chars, vocab_tag := Some tags\<rparr>"
    "contiguous tags"
    "map_of words UNK = Some 0" "map_of chars UNK = Some 0" "tags = fit_tags (concat y) []"
    using fit_vocabs [of lower UNK iter_set self X y] st by blast
  have vs: "vocab_word st = Some words" "vocab_char st = Some chars" "vocab_tag st = Some tags"
    by (simp_all add: f(1))
  have known: "dict_contains tags t" if "t \<in> set (concat y)" for t
    using that by (simp add: f(5) contains_fit_tags)
  obtain sents where sents: "map_err (transform_sent lower UNK st) X = Inr sents"
    using transform_sents_fitted [OF vs(1) f(3) vs(2) f(4)] by blast
  let ?ids = "map (map (\<lambda>t. the (map_of tags t))) y"
  have "map_err (map_err (tag_id st)) y = Inr ?ids"
    using known by (intro tag_ids_known [OF vs(3)]) blast
  then have tr: "transform lower UNK st X y = Inr (sents, ?ids)"
    by (simp add: transform_def sents)
  have "inverse_transform st (map (\<lambda>t. the (map_of tags t)) s) = Inr s" if s: "s \<in> set y" for s
  proof -
    have "dict_getitem (fold (\<lambda>(t, i) d. dict_setitem d i t) tags []) (the (map_of tags t)) = Inr t"
      if "t \<in> set s" for t
    proof -
      from that s have "dict_contains tags t" by (intro known) auto
      then obtain i where "map_of tags t = Some i" by (auto simp: dict_contains_def)
      with indice_tag_lookup [OF f(2) this] show ?thesis by simp
    qed
    then have "map_err (dict_getitem (fold (\<lambda>(t, i) d. dict_setitem d i t) tags []))
        (map (\<lambda>t. the (map_of tags t)) s) = Inr s"
      by (rule map_err_map)
    then show ?thesis
      by (simp add: inverse_transform_def vs Let_def)
  qed
  then have "map (inverse_transform st) ?ids = map Inr y"
    by simp
  with tr show ?thesis by blast
qed

theorem fit_transform_inverse_transform_witness:
  "transform ascii_lower (str ''<UNK>'')
     (fit ascii_lower (str ''<UNK>'') remdups
        \<lparr>lowercase = True, num_norm = True, char_feature = False, vocab_word = None,
         vocab_char = None, vocab_tag = None, vocab_init = []\<rparr>
        [[str ''a'', str ''b'', str ''a'']] [[str ''O'', str ''B'', str ''O'']])
     [[str ''a'', str ''b'', str ''a'']] [[str ''O'', str ''B'', str ''O'']] =
     Inr ([WordIds [2, 1, 2]], [[0, 1, 0]]) \<and>
   inverse_transform
     (fit ascii_lower (str ''<UNK>'') remdups
        \<lparr>lowercase = True, num_norm = True, char_feature = False, vocab_word = None,
         vocab_char = None, vocab_tag = None, vocab_init = []\<rparr>
        [[str ''a'', str ''b'', str ''a'']] [[str ''O'', str ''B'', str ''O'']])
     [0, 1, 0] = Inr [str ''O'', str ''B'', str ''O'']"
proof -
  have ev: "transform ascii_lower (str ''<UNK>'')
     (fit ascii_lower (str ''<UNK>'') remdups
        \<lparr>lowercase = True, num_norm = True, char_feature = False, vocab_word = None,
         vocab_char = None, vocab_tag = None, vocab_init = []\<rparr>
        [[str ''a'', str ''b'', str ''a'']] [[str ''O'', str ''B'', str ''O'']])
     [[str ''a'', str ''b'', str ''a'']] [[str ''O'', str ''B'', str ''O'']] =
     Inr ([WordIds [2, 1, 2]], [[0, 1, 0]])"
    by (simp add: transform_def transform_sent_def transform_word_def tag_id_def fit_def
          str_def ascii_lower_def self_lower_def self_normalize_num_def re_sub_class_def
          digit_class_def dict_add_new_def dict_contains_def dict_len_def dict_keys_def
          dict_getitem_def Let_def)
  show ?thesis
    using fit_transform_inverse_transform [OF refl, of ascii_lower "str ''<UNK>''" remdups
        "\<lparr>lowercase = True, num_norm = True, char_feature = False, vocab_word = None,
         vocab_char = None, vocab_tag = None, vocab_init = []\<rparr>"
        "[[str ''a'', str ''b'', str ''a'']]" "[[str ''O'', str ''B'', str ''O'']]"]
    by (simp add: ev)
qed

subsection \<open>Characters outside the character vocabulary\<close>

text \<open>Whatever the vocabularies hold, the character ids that the loop of the closure
  hands back are those of the in-vocabulary characters, in order.\<close>

lemma char_ids_loop_result:
  "char_ids_loop UNK vc w acc = Inr cs \<Longrightarrow>
   cs = acc @ map (\<lambda>c. the (map_of vc [c])) (filter (\<lambda>c. dict_contains vc [c]) w)"
proof (induction w arbitrary: acc)
  case Nil
  then show ?case by simp
next
  case (Cons c w)
  show ?case
  proof (cases "dict_contains vc [c]")
    case True
    then obtain i where i: "map_of vc [c] = Some i"
      by (auto simp: dict_contains_def)
    from Cons.prems True obtain u where u: "dict_getitem vc UNK = Inr u"
      by (cases "dict_getitem vc UNK") simp_all
    from Cons.prems True u i have "char_ids_loop UNK vc w (acc @ [i]) = Inr cs"
      by (simp add: dict_get_def)
    from Cons.IH [OF this] True i show ?thesis by simp
  next
    case False
    with Cons.prems have "char_ids_loop UNK vc w acc = Inr cs" by simp
    from Cons.IH [OF this] False show ?thesis by simp
  qed
qed

lemma get_processing_word_chars:
  assumes "get_processing_word lower UNK PAD vw (Some vc) lc True w = Inr r"
  shows "chars_of r =
     Some (map (\<lambda>c. the (map_of vc [c]))
             (filter (\<lambda>c. dict_contains vc [c]) (digit_to_zero (if lc then lower w else w))))"
proof -
  define n where "n = digit_to_zero (if lc then lower w else w)"
  define wpart where "wpart = (case vw of
                 Some vw' \<Rightarrow> map_sum id WordId (lookup_word UNK PAD vw' n)
               | None \<Rightarrow> Inr (WordStr n))"
  have unfolded: "get_processing_word lower UNK PAD vw (Some vc) lc True w =
      (case char_ids_loop UNK vc n [] of
         Inl e \<Rightarrow> Inl e
       | Inr char_ids \<Rightarrow>
           (case wpart of Inl e \<Rightarrow> Inl e | Inr word \<Rightarrow> Inr (CharsWord char_ids word)))"
    unfolding get_processing_word_def Let_def n_def [symmetric] wpart_def
    by (simp split: sum.splits)
  from assms obtain cs where cs: "char_ids_loop UNK vc n [] = Inr cs"
    unfolding unfolded by (cases "char_ids_loop UNK vc n []") simp_all
  from assms cs obtain wv where "r = CharsWord cs wv"
    unfolding unfolded by (cases wpart) auto
  moreover from char_ids_loop_result [OF cs]
  have "cs = map (\<lambda>c. the (map_of vc [c])) (filter (\<lambda>c. dict_contains vc [c]) n)"
    by simp
  ultimately show ?thesis
    by (simp add: chars_of_def n_def)
qed

text \<open>The closure does return when \<open>UNK\<close> is a key of the character vocabulary and
  the word vocabulary, if one is given, has the key \<open>PAD\<close>.\<close>

lemma get_processing_word_chars_returns:
  assumes unk: "dict_contains vc UNK"
    and pad: "vw = None \<or> dict_contains (the vw) PAD"
  shows "\<exists>r. get_processing_word lower UNK PAD vw (Some vc) lc True w = Inr r"
proof -
  define n where "n = digit_to_zero (if lc then lower w else w)"
  have loop: "char_ids_loop UNK vc n [] =
      Inr (map (\<lambda>c. the (map_of vc [c])) (filter (\<lambda>c. dict_contains vc [c]) n))"
    using char_ids_loop_filter [OF unk, of n "[]"] by simp
  have "\<exists>wv. (case vw of
                 Some vw' \<Rightarrow> map_sum id WordId (lookup_word UNK PAD vw' n)
               | None \<Rightarrow> Inr (WordStr n)) = Inr wv"
  proof (cases vw)
    case None
    then show ?thesis by simp
  next
    case (Some vw')
    with pad obtain p where "map_of vw' PAD = Some p"
      by (auto simp: dict_contains_def)
    from lookup_word_chain [OF this] Some show ?thesis by simp
  qed
  then obtain wv where wv: "(case vw of
                 Some vw' \<Rightarrow> map_sum id WordId (lookup_word UNK PAD vw' n)
               | None \<Rightarrow> Inr (WordStr n)) = Inr wv" ..
  show ?thesis
    unfolding get_processing_word_def Let_def n_def [symmetric] using loop wv by simp
qed

text \<open>
  C3, as amended. Whenever the closure of \<open>get_processing_word\<close> (with \<open>use_char\<close>
  and a character vocabulary) produces character ids for a word, every character that
  is not in the character vocabulary is left out: the list holds the ids of the
  in-vocabulary characters, in order, and is as long as their number.
  \<open>WordPreprocessor.transform\<close>, through \<open>_get_char_ids\<close>, keeps every position
  instead: after \<open>fit\<close> a character outside the character vocabulary gets 0, the id
  of \<open>UNK\<close>, and the list is as long as the normalised word.
\<close>

theorem char_ids_of_unknown_characters:
  assumes st: "st = fit lower UNK iter_set self X0 y0"
  shows "(\<forall>r. get_processing_word lower UNK PAD vw (Some vc) lc True w = Inr r \<longrightarrow>
            chars_of r =
              Some (map (\<lambda>c. the (map_of vc [c]))
                      (filter (\<lambda>c. dict_contains vc [c])
                         (digit_to_zero (if lc then lower w else w)))) \<and>
            length (the (chars_of r)) =
              length (filter (\<lambda>c. dict_contains vc [c])
                        (digit_to_zero (if lc then lower w else w)))) \<and>
         (\<exists>cs. self_get_char_ids UNK st w = Inr cs \<and>
            cs = map (\<lambda>c. if dict_contains (the (vocab_char st)) [c]
                          then the (map_of (the (vocab_char st)) [c]) else 0) w \<and>
            length cs = length w \<and>
            dict_getitem (the (vocab_char st)) UNK = Inr 0) \<and>
         (char_feature self \<longrightarrow>
            map_err (transform_sent lower UNK st) X =
              Inr (map (\<lambda>sent.
                     CharWordIds
                       (map (\<lambda>w. map (\<lambda>c. if dict_contains (the (vocab_char st)) [c]
                                           then the (map_of (the (vocab_char st)) [c]) else 0)
                                   (self_normalize_num self (self_lower lower self w))) sent)
                       (map (\<lambda>w. dict_get (the (vocab_word st))
                                   (self_normalize_num self (self_lower lower self w)) 0) sent))
                   X))"
proof -
  obtain words chars tags where f:
    "st = self\<lparr>vocab_word := Some words, vocab_char := Some chars, vocab_tag := Some tags\<rparr>"
    "map_of words UNK = Some 0" "map_of chars UNK = Some 0"
    using fit_vocabs [of lower UNK iter_set self X0 y0] st by blast
  have vs: "vocab_word st = Some words" "vocab_char st = Some chars"
    by (simp_all add: f(1))
  have norm: "self_normalize_num st (self_lower lower st w) =
      self_normalize_num self (self_lower lower self w)" for w
    by (simp add: f(1) self_normalize_num_def self_lower_def)
  have cf: "char_feature st = char_feature self"
    by (simp add: f(1))
  have subst: "dict_get chars [c] 0 =
      (if dict_contains chars [c] then the (map_of chars [c]) else 0)" for c
    by (auto simp: dict_get_def dict_contains_def)
  have closure: "\<forall>r. get_processing_word lower UNK PAD vw (Some vc) lc True w = Inr r \<longrightarrow>
            chars_of r =
              Some (map (\<lambda>c. the (map_of vc [c]))
                      (filter (\<lambda>c. dict_contains vc [c])
                         (digit_to_zero (if lc then lower w else w)))) \<and>
            length (the (chars_of r)) =
              length (filter (\<lambda>c. dict_contains vc [c])
                        (digit_to_zero (if lc then lower w else w)))"
    by (auto dest!: get_processing_word_chars)
  have "self_get_char_ids UNK st w = Inr (map (\<lambda>c. dict_get chars [c] 0) w)"
    by (rule get_char_ids_fitted [OF vs(2) f(3)])
  then have fitted: "\<exists>cs. self_get_char_ids UNK st w = Inr cs \<and>
            cs = map (\<lambda>c. if dict_contains (the (vocab_char st)) [c]
                          then the (map_of (the (vocab_char st)) [c]) else 0) w \<and>
            length cs = length w \<and>
            dict_getitem (the (vocab_char st)) UNK = Inr 0"
    by (simp add: subst vs f(3) dict_getitem_def)
  have sents: "char_feature self \<longrightarrow>
            map_err (transform_sent lower UNK st) X =
              Inr (map (\<lambda>sent.
                     CharWordIds
                       (map (\<lambda>w. map (\<lambda>c. if dict_contains (the (vocab_char st)) [c]
                                           then the (map_of (the (vocab_char st)) [c]) else 0)
                                   (self_normalize_num self (self_lower lower self w))) sent)
                       (map (\<lambda>w. dict_get (the (vocab_word st))
                                   (self_normalize_num self (self_lower lower self w)) 0) sent))
                   X)"
    using transform_sents_fitted [OF vs(1) f(2) vs(2) f(3), where lower = lower and X = X]
    by (simp add: norm cf vs subst)
  from closure fitted sents show ?thesis
    by (intro conjI)
qed

theorem char_ids_of_unknown_characters_witness:
  "get_processing_word ascii_lower (str ''<UNK>'') (str ''<PAD>'') None
     (Some [(str ''<UNK>'', 0), (str ''a'', 1)]) False True (str ''ac'') =
     Inr (CharsWord [1] (WordStr (str ''ac''))) \<and>
   chars_of (CharsWord [1] (WordStr (str ''ac''))) = Some [1] \<and>
   self_get_char_ids (str ''<UNK>'')
     (fit ascii_lower (str ''<UNK>'') remdups
        \<lparr>lowercase = True, num_norm = True, char_feature = True, vocab_word = None,
         vocab_char = None, vocab_tag = None, vocab_init = []\<rparr>
        [[str ''ab'']] [[str ''O'']])
     (str ''ac'') = Inr [1, 0]"
proof -
  have ev1: "get_processing_word ascii_lower (str ''<UNK>'') (str ''<PAD>'') None
     (Some [(str ''<UNK>'', 0), (str ''a'', 1)]) False True (str ''ac'') =
     Inr (CharsWord [1] (WordStr (str ''ac'')))"
    by (simp add: get_processing_word_def digit_to_zero_map is_ascii_digit_def
          is_fullwidth_digit_def dict_contains_def dict_getitem_def dict_get_def str_def)
  have ev2: "self_get_char_ids (str ''<UNK>'')
     (fit ascii_lower (str ''<UNK>'') remdups
        \<lparr>lowercase = True, num_norm = True, char_feature = True, vocab_word = None,
         vocab_char = None, vocab_tag = None, vocab_init = []\<rparr>
        [[str ''ab'']] [[str ''O'']])
     (str ''ac'') = Inr [1, 0]"
    by (simp add: self_get_char_ids_def fit_def str_def ascii_lower_def self_lower_def
          self_normalize_num_def re_sub_class_def digit_class_def dict_add_new_def
          dict_contains_def dict_len_def dict_keys_def dict_getitem_def dict_get_def Let_def)
  have ev3: "chars_of (CharsWord [1] (WordStr (str ''ac''))) = Some [1]"
    by (simp add: chars_of_def)
  show ?thesis
    using ev1 ev2 ev3
      char_ids_of_unknown_characters [OF refl, where lower = ascii_lower
        and UNK = "str ''<UNK>''" and PAD = "str ''<PAD>''" and vw = None
        and vc = "[(str ''<UNK>'', 0), (str ''a'', 1)]"
        and lc = False and w = "str ''ac''" and iter_set = remdups
        and self = "\<lparr>lowercase = True, num_norm = True, char_feature = True, vocab_word = None,
         vocab_char = None, vocab_tag = None, vocab_init = []\<rparr>"
        and ?X0.0 = "[[str ''ab'']]" and ?y0.0 = "[[str ''O'']]"]
    by (simp only: simp_thms)
qed

text \<open>
  C3 as stated fails for \<open>transform\<close>: after \<open>fit\<close> on the word \<open>ab\<close> the word
  \<open>ac\<close> gets the character ids \<open>[1, 0]\<close>. The character \<open>c\<close> is not in the
  vocabulary and is replaced by the id of \<open>UNK\<close>; the list has length 2 although only
  one character of the word is in the vocabulary.
\<close>

theorem transform_substitutes_unk:
  "transform ascii_lower (str ''<UNK>'')
     (fit ascii_lower (str ''<UNK>'') remdups
        \<lparr>lowercase = True, num_norm = True, char_feature = True, vocab_word = None,
         vocab_char = None, vocab_tag = None, vocab_init = []\<rparr>
        [[str ''ab'']] [[str ''O'']])
     [[str ''ac'']] [[str ''O'']] = Inr ([CharWordIds [[1, 0]] [0]], [[0]])"
    by (simp add: transform_def transform_sent_def transform_word_def tag_id_def fit_def
          self_get_char_ids_def dict_get_def
          str_def ascii_lower_def self_lower_def self_normalize_num_def re_sub_class_def
          digit_class_def dict_add_new_def dict_contains_def dict_len_def dict_keys_def
          dict_getitem_def Let_def)

subsection \<open>The words collected by \<open>build_vocab\<close>\<close>

lemma get_vocabs_inner:
  "fst (fold (\<lambda>(words, tags) (vocab_words, vocab_tags).
                (vocab_words \<union> set words, vocab_tags \<union> set tags)) zs acc) =
     fst acc \<union> (\<Union>p \<in> set zs. set (fst p))"
  by (induction zs arbitrary: acc) (auto split: prod.splits)

lemma get_vocabs_outer:
  "fst (fold (\<lambda>dataset.
               fold (\<lambda>(words, tags) (vocab_words, vocab_tags).
                       (vocab_words \<union> set words, vocab_tags \<union> set tags))
                    (zip (sents dataset) (labels dataset))) ds acc) =
     fst acc \<union> (\<Union>d \<in> set ds. \<Union>p \<in> set (zip (sents d) (labels d)). set (fst p))"
  by (induction ds arbitrary: acc) (auto simp: get_vocabs_inner)

lemma get_vocabs_words:
  "fst (get_vocabs ds) = (\<Union>d \<in> set ds. \<Union>p \<in> set (zip (sents d) (labels d)). set (fst p))"
  by (simp add: get_vocabs_def get_vocabs_outer)

text \<open>
  C5 at a training set with the one sentence \<open>The\<close>: the collected word set is
  \<open>{The}\<close> and does not hold the lowercased \<open>the\<close>; with an embedding vocabulary
  \<open>{the}\<close> the word is lost from the vocabulary that \<open>build_vocab\<close> writes.
\<close>

theorem build_vocab_keeps_case:
  "fst (get_vocabs [\<lparr>sents = [[str ''The'']], labels = [[str ''O'']]\<rparr>,
                    \<lparr>sents = [], labels = []\<rparr>, \<lparr>sents = [], labels = []\<rparr>]) = {str ''The''} \<and>
   ascii_lower (str ''The'') = str ''the'' \<and>
   str ''the'' \<notin> fst (get_vocabs [\<lparr>sents = [[str ''The'']], labels = [[str ''O'']]\<rparr>,
                    \<lparr>sents = [], labels = []\<rparr>, \<lparr>sents = [], labels = []\<rparr>]) \<and>
   fst (build_vocab ascii_lower (str ''$UNK$'') (str ''<PAD>'') (str ''$NUM$'') {str ''the''}
          \<lparr>train = \<lparr>sents = [[str ''The'']], labels = [[str ''O'']]\<rparr>,
           valid = \<lparr>sents = [], labels = []\<rparr>, test = \<lparr>sents = [], labels = []\<rparr>\<rparr>) =
     {str ''$NUM$'', str ''$UNK$''}"
  by (simp add: build_vocab_def get_vocabs_def str_def ascii_lower_def)

end
